theory Spec2Isabelle
  imports Main
begin

section \<open>Python strings and the regular expressions of \<^verbatim>\<open>tools.py\<close>\<close>

text \<open>
  A Python \<^verbatim>\<open>str\<close> is modelled as an Isabelle \<^typ>\<open>string\<close> whose characters are the
  code points below 256.  On that range the class \<^verbatim>\<open>\s\<close> of the \<^verbatim>\<open>re\<close> module and the
  characters removed by \<^verbatim>\<open>str.strip()\<close> are the same twelve code points (both use the
  interpreter's whitespace table), and \<^verbatim>\<open>\d\<close> is \<^verbatim>\<open>0\<close> to \<^verbatim>\<open>9\<close>.
\<close>

definition is_space :: "char \<Rightarrow> bool" where
  "is_space c =
     (let n = (of_char c :: nat)
      in (9 \<le> n \<and> n \<le> 13) \<or> (28 \<le> n \<and> n \<le> 32) \<or> n = 133 \<or> n = 160)"

definition is_digit :: "char \<Rightarrow> bool" where
  "is_digit c = (let n = (of_char c :: nat) in 48 \<le> n \<and> n \<le> 57)"

text \<open>
  The three patterns of the source, \<^verbatim>\<open><[^>]+>\<close>, \<^verbatim>\<open>\s+\<close> and \<^verbatim>\<open>\[\d+\]\<close>, are sequences
  of atoms: one character of a class, or a greedy \<^verbatim>\<open>+\<close> over a class.  A class is a
  literal character, a negated one-character set, \<^verbatim>\<open>\s\<close> or \<^verbatim>\<open>\d\<close>.  A negated set also
  matches a newline, as in Python.
\<close>

datatype cls = Lit char | NotLit char | Space | Digit

datatype atom = One cls | Plus cls

type_synonym regex = "atom list"

fun cls_match :: "cls \<Rightarrow> char \<Rightarrow> bool" where
  "cls_match (Lit a) c = (c = a)"
| "cls_match (NotLit a) c = (c \<noteq> a)"
| "cls_match Space c = is_space c"
| "cls_match Digit c = is_digit c"

text \<open>
  \<open>match_here p s\<close> matches \<open>p\<close> at the start of \<open>s\<close> the way a backtracking engine
  does and returns what is left of \<open>s\<close> behind the match.  A \<open>Plus\<close> takes one
  character, then first tries to take more and only then gives the rest of the
  pattern its turn.
\<close>

fun match_here :: "regex \<Rightarrow> string \<Rightarrow> string option" where
  "match_here [] s = Some s"
| "match_here (One k # p) [] = None"
| "match_here (One k # p) (c # cs) = (if cls_match k c then match_here p cs else None)"
| "match_here (Plus k # p) [] = None"
| "match_here (Plus k # p) (c # cs) =
     (if cls_match k c
      then (case match_here (Plus k # p) cs of
              Some rest \<Rightarrow> Some rest
            | None \<Rightarrow> match_here p cs)
      else None)"

text \<open>
  \<^verbatim>\<open>re.sub(pattern, repl, s)\<close>: the leftmost match is replaced and the scan goes on
  behind it; where nothing matches the character is copied.  Only the empty pattern
  matches the empty string; Python then puts \<open>repl\<close> in front of every character and
  at the end, which is the last branch.
\<close>

fun re_sub :: "regex \<Rightarrow> string \<Rightarrow> string \<Rightarrow> string" where
  "re_sub p repl [] = (case match_here p [] of Some rest \<Rightarrow> repl | None \<Rightarrow> [])"
| "re_sub p repl (c # cs) =
     (case match_here p (c # cs) of
        None \<Rightarrow> c # re_sub p repl cs
      | Some rest \<Rightarrow>
          if length rest < length (c # cs) then repl @ re_sub p repl rest
          else repl @ c # re_sub p repl cs)"

definition tag_re :: regex where
  "tag_re = [One (Lit (CHR ''<'')), Plus (NotLit (CHR ''>'')), One (Lit (CHR ''>''))]"

definition ws_re :: regex where
  "ws_re = [Plus Space]"

definition ref_re :: regex where
  "ref_re = [One (Lit (CHR ''['')), Plus Digit, One (Lit (CHR '']''))]"

text \<open>
  \<^verbatim>\<open>str.replace(old, new)\<close> replaces the occurrences of \<open>old\<close> from left to right, without
  overlap; \<^verbatim>\<open>str.strip()\<close> drops the whitespace at both ends.
\<close>

fun str_replace :: "string \<Rightarrow> string \<Rightarrow> string \<Rightarrow> string" where
  "str_replace old new [] = (if old = [] then new else [])"
| "str_replace old new (c # cs) =
     (if old = [] then new @ c # str_replace old new cs
      else if take (length old) (c # cs) = old
      then new @ str_replace old new (drop (length old) (c # cs))
      else c # str_replace old new cs)"

definition strip :: "string \<Rightarrow> string" where
  "strip s = rev (dropWhile is_space (rev (dropWhile is_space s)))"

section \<open>The two cleaners of \<^verbatim>\<open>WikipediaAgent\<close>\<close>

definition extract_text_from_html :: "string \<Rightarrow> string" where
  "extract_text_from_html html =
     (let text = re_sub tag_re [] html;
          text = re_sub ws_re '' '' text;
          text = re_sub ref_re [] text
      in strip text)"

definition clean_html :: "string \<Rightarrow> string" where
  "clean_html text0 =
     (let text = re_sub tag_re [] text0;
          text = str_replace ''&gt;'' ''>''
                   (str_replace ''&lt;'' ''<''
                     (str_replace ''&amp;'' ''&''
                       (str_replace ''&quot;'' [CHR 0x22] text)))
      in strip text)"

section \<open>The text-cleaning algorithm of the specification\<close>

text \<open>
  The specification's four steps, defined from its words and not from the code:
  remove all tag spans, collapse every run of whitespace to one space, remove the
  bracketed all-digit reference markers, trim.  A tag span is a \<^verbatim>\<open><\<close>, one or more
  characters other than \<^verbatim>\<open>>\<close>, and a \<^verbatim>\<open>>\<close>; a reference marker is a \<^verbatim>\<open>[\<close>, one or more
  digits, and a \<^verbatim>\<open>]\<close>.  Each step scans from the left and goes on behind what it
  removed.  \<open>tag_body cs\<close> is the text behind the tag span whose \<^verbatim>\<open><\<close> stands just before
  \<open>cs\<close>, if there is one; \<open>ref_body\<close> is the same for a marker.
\<close>

definition tag_body :: "string \<Rightarrow> string option" where
  "tag_body cs =
     (if takeWhile (\<lambda>c. c \<noteq> CHR ''>'') cs \<noteq> [] \<and> dropWhile (\<lambda>c. c \<noteq> CHR ''>'') cs \<noteq> []
      then Some (tl (dropWhile (\<lambda>c. c \<noteq> CHR ''>'') cs)) else None)"

lemma tag_body_length [termination_simp]:
  "tag_body cs = Some rest \<Longrightarrow> length rest < Suc (length cs)"
  using length_dropWhile_le [of "\<lambda>c. c \<noteq> CHR ''>''" cs]
  by (auto simp: tag_body_def split: if_splits)

fun spec_remove_tags :: "string \<Rightarrow> string" where
  "spec_remove_tags [] = []"
| "spec_remove_tags (c # cs) =
     (if c = CHR ''<''
      then (case tag_body cs of
              Some rest \<Rightarrow> spec_remove_tags rest
            | None \<Rightarrow> c # spec_remove_tags cs)
      else c # spec_remove_tags cs)"

lemma dropWhile_length [termination_simp]:
  "length (dropWhile P cs) < Suc (length cs)"
  by (simp add: less_Suc_eq_le length_dropWhile_le)

fun spec_collapse_whitespace :: "string \<Rightarrow> string" where
  "spec_collapse_whitespace [] = []"
| "spec_collapse_whitespace (c # cs) =
     (if is_space c then CHR '' '' # spec_collapse_whitespace (dropWhile is_space cs)
      else c # spec_collapse_whitespace cs)"

definition ref_body :: "string \<Rightarrow> string option" where
  "ref_body cs =
     (if takeWhile is_digit cs \<noteq> [] \<and> dropWhile is_digit cs \<noteq> []
         \<and> hd (dropWhile is_digit cs) = CHR '']''
      then Some (tl (dropWhile is_digit cs)) else None)"

lemma ref_body_length [termination_simp]:
  "ref_body cs = Some rest \<Longrightarrow> length rest < Suc (length cs)"
  using length_dropWhile_le [of is_digit cs]
  by (auto simp: ref_body_def split: if_splits)

fun spec_remove_reference_markers :: "string \<Rightarrow> string" where
  "spec_remove_reference_markers [] = []"
| "spec_remove_reference_markers (c # cs) =
     (if c = CHR ''[''
      then (case ref_body cs of
              Some rest \<Rightarrow> spec_remove_reference_markers rest
            | None \<Rightarrow> c # spec_remove_reference_markers cs)
      else c # spec_remove_reference_markers cs)"


definition spec_trim :: "string \<Rightarrow> string" where
  "spec_trim s = dropWhile is_space (rev (dropWhile is_space (rev s)))"

definition spec_clean :: "string \<Rightarrow> string" where
  "spec_clean s =
     spec_trim (spec_remove_reference_markers (spec_collapse_whitespace (spec_remove_tags s)))"

text \<open>
  What a cleaned text may still contain.  \<open>has_tag_span s\<close>: somewhere in \<open>s\<close> stands a
  tag span.  \<open>has_ref_marker s\<close>: somewhere in \<open>s\<close> stands a reference marker.
  \<open>has_nested_bracket s\<close>: somewhere in \<open>s\<close> a \<^verbatim>\<open>[\<close> is followed by digits (or nothing) and
  another \<^verbatim>\<open>[\<close>, as in \<^verbatim>\<open>[[1]2]\<close>.  \<open>ws_normal s\<close>: every whitespace character of \<open>s\<close> is a
  space that no whitespace follows.
\<close>

fun has_tag_span :: "string \<Rightarrow> bool" where
  "has_tag_span [] = False"
| "has_tag_span (c # cs) = ((c = CHR ''<'' \<and> tag_body cs \<noteq> None) \<or> has_tag_span cs)"

fun has_ref_marker :: "string \<Rightarrow> bool" where
  "has_ref_marker [] = False"
| "has_ref_marker (c # cs) = ((c = CHR ''['' \<and> ref_body cs \<noteq> None) \<or> has_ref_marker cs)"



fun ws_normal :: "string \<Rightarrow> bool" where
  "ws_normal [] = True"
| "ws_normal (c # cs) =
     ((if is_space c then c = CHR '' '' \<and> (case cs of [] \<Rightarrow> True | d # ds \<Rightarrow> \<not> is_space d) else True)
      \<and> ws_normal cs)"

text \<open>
  \<open>occurs_in old s\<close>: the string \<open>old\<close> occurs somewhere in \<open>s\<close>.  \<open>has_entity s\<close>: one of the
  four entities that \<^verbatim>\<open>_clean_html\<close> decodes occurs in \<open>s\<close>.
\<close>

fun occurs_in :: "string \<Rightarrow> string \<Rightarrow> bool" where
  "occurs_in old [] = (old = [])"
| "occurs_in old (c # cs) = (take (length old) (c # cs) = old \<or> occurs_in old cs)"

definition has_entity :: "string \<Rightarrow> bool" where
  "has_entity s =
     (occurs_in ''&quot;'' s \<or> occurs_in ''&amp;'' s \<or> occurs_in ''&lt;'' s \<or> occurs_in ''&gt;'' s)"

section \<open>Exceptions\<close>

text \<open>
  An exception is a value: every function that can raise returns \<open>exn + 'a\<close>, with
  \<open>Inl\<close> the exception.  \<open>RequestException\<close> stands for the exception classes of the
  \<^verbatim>\<open>requests\<close> library (connection errors, timeouts and the \<^verbatim>\<open>HTTPError\<close> of
  \<^verbatim>\<open>raise_for_status\<close>), \<open>Exception\<close> for the plain \<^verbatim>\<open>Exception(message)\<close> the source
  raises itself.
\<close>

datatype exn =
    RequestException string
  | Exception string
  | IndexError string
  | KeyError string
  | AttributeError string
  | PackageNotFoundError string

section \<open>Content retrieval: \<^verbatim>\<open>WikipediaAgent\<close>\<close>

text \<open>
  The remote source is a function from a request (address, query parameters,
  headers) to what \<^verbatim>\<open>requests.get\<close> does with it: it raises, or it returns a response.
  A response carries its status, the message \<^verbatim>\<open>raise_for_status\<close> would raise with, its
  text, and its decoded JSON body.  Of the body the model keeps the fields the source
  reads, each with the default the source gives it when absent; response bodies are
  taken to be well-formed JSON of the documented shape.
\<close>

datatype param = PStr string | PInt int | PBool bool

record search_item =
  item_title :: string
  item_snippet :: "string option"
  item_size :: "int option"
  item_timestamp :: "string option"

record page_data =
  pd_extract :: "string option"
  pd_links :: "string list option"
  pd_categories :: "string list option"

record api_data =
  top_extract :: "string option"
  query_search :: "search_item list"
  query_pages :: "(string \<times> page_data) list"

record response =
  status_code :: nat
  http_error_msg :: string
  resp_text :: string
  resp_json :: api_data

type_synonym world =
  "string \<Rightarrow> (string \<times> param) list \<Rightarrow> (string \<times> string) list \<Rightarrow> exn + response"

definition raise_for_status :: "response \<Rightarrow> exn + unit" where
  "raise_for_status r =
     (if 400 \<le> status_code r \<and> status_code r < 600
      then Inl (RequestException (http_error_msg r)) else Inr ())"

text \<open>
  \<^verbatim>\<open>urllib.parse.quote\<close> with its default \<^verbatim>\<open>safe='/'\<close>: the string is encoded in UTF-8 and every
  byte that is not a letter, a digit or one of \<^verbatim>\<open>_.-~/\<close> becomes \<^verbatim>\<open>%XX\<close>.
\<close>

definition always_safe :: "char \<Rightarrow> bool" where
  "always_safe c =
     (let n = (of_char c :: nat)
      in (65 \<le> n \<and> n \<le> 90) \<or> (97 \<le> n \<and> n \<le> 122) \<or> (48 \<le> n \<and> n \<le> 57)
         \<or> c = CHR ''_'' \<or> c = CHR ''.'' \<or> c = CHR ''-'' \<or> c = CHR ''~'')"

definition hex_digit :: "nat \<Rightarrow> char" where
  "hex_digit n = ''0123456789ABCDEF'' ! (n mod 16)"

definition percent :: "nat \<Rightarrow> string" where
  "percent b = [CHR ''%'', hex_digit (b div 16), hex_digit (b mod 16)]"

definition utf8 :: "char \<Rightarrow> nat list" where
  "utf8 c = (let n = (of_char c :: nat) in if n < 128 then [n] else [192 + n div 64, 128 + n mod 64])"

definition quote :: "string \<Rightarrow> string" where
  "quote s =
     concat (map (\<lambda>c. if always_safe c \<or> c = CHR ''/'' then [c]
                       else concat (map percent (utf8 c))) s)"

record WikipediaPage =
  page_title :: string
  page_content :: string
  page_url :: string
  page_summary :: string
  page_categories :: "string list"
  page_links :: "string list"

record WikipediaAgent =
  language :: string
  base_url :: string
  api_url :: string
  headers :: "(string \<times> string) list"

definition WikipediaAgent_init :: "string \<Rightarrow> string \<Rightarrow> WikipediaAgent" where
  "WikipediaAgent_init lang user_agent =
     \<lparr>language = lang,
      base_url = ''https://'' @ lang @ ''.wikipedia.org/api/rest_v1'',
      api_url = ''https://'' @ lang @ ''.wikipedia.org/w/api.php'',
      headers = [(''User-Agent'', user_agent), (''Accept'', ''application/json'')]\<rparr>"

text \<open>
  \<^verbatim>\<open>try: body except requests.RequestException as e: handler\<close>: only an exception of the
  \<^verbatim>\<open>requests\<close> library reaches the handler, with its message \<^verbatim>\<open>str(e)\<close>; any other
  exception, and any result, passes through.
\<close>

fun except_RequestException :: "exn + 'a \<Rightarrow> (string \<Rightarrow> exn + 'a) \<Rightarrow> exn + 'a" where
  "except_RequestException (Inl (RequestException msg)) handler = handler msg"
| "except_RequestException body handler = body"

record SearchResult =
  sr_title :: string
  sr_snippet :: string
  sr_size :: int
  sr_timestamp :: string
  sr_url :: string

definition search :: "world \<Rightarrow> WikipediaAgent \<Rightarrow> string \<Rightarrow> int \<Rightarrow> exn + SearchResult list" where
  "search get self query limit =
     except_RequestException
       (case get (api_url self)
               [(''action'', PStr ''query''), (''format'', PStr ''json''),
                (''list'', PStr ''search''), (''srsearch'', PStr query),
                (''srlimit'', PInt limit),
                (''srprop'', PStr ''snippet|titlesnippet|size|timestamp'')]
               (headers self) of
          Inl e \<Rightarrow> Inl e
        | Inr response \<Rightarrow>
            (case raise_for_status response of
               Inl e \<Rightarrow> Inl e
             | Inr u \<Rightarrow>
                 Inr (map (\<lambda>item.
                        \<lparr>sr_title = item_title item,
                         sr_snippet = clean_html (case item_snippet item of Some s \<Rightarrow> s | None \<Rightarrow> []),
                         sr_size = (case item_size item of Some n \<Rightarrow> n | None \<Rightarrow> 0),
                         sr_timestamp = (case item_timestamp item of Some t \<Rightarrow> t | None \<Rightarrow> []),
                         sr_url = ''https://'' @ language self @ ''.wikipedia.org/wiki/''
                                    @ quote (item_title item)\<rparr>)
                      (query_search (resp_json response)))))
       (\<lambda>msg. Inl (Exception (''Search failed: '' @ msg)))"

definition get_page_links_internal :: "world \<Rightarrow> WikipediaAgent \<Rightarrow> string \<Rightarrow> int \<Rightarrow> exn + string list" where
  "get_page_links_internal get self title limit =
     except_RequestException
       (case get (api_url self)
               [(''action'', PStr ''query''), (''format'', PStr ''json''),
                (''prop'', PStr ''links''), (''titles'', PStr title),
                (''pllimit'', PInt limit), (''plnamespace'', PInt 0)]
               (headers self) of
          Inl e \<Rightarrow> Inl e
        | Inr response \<Rightarrow>
            (case raise_for_status response of
               Inl e \<Rightarrow> Inl e
             | Inr u \<Rightarrow>
                 Inr (concat (map (\<lambda>(page_id, pd).
                                case pd_links pd of None \<Rightarrow> [] | Some ls \<Rightarrow> ls)
                              (query_pages (resp_json response))))))
       (\<lambda>msg. Inr [])"

definition get_page_categories_internal :: "world \<Rightarrow> WikipediaAgent \<Rightarrow> string \<Rightarrow> exn + string list" where
  "get_page_categories_internal get self title =
     except_RequestException
       (case get (api_url self)
               [(''action'', PStr ''query''), (''format'', PStr ''json''),
                (''prop'', PStr ''categories''), (''titles'', PStr title),
                (''cllimit'', PInt 50)]
               (headers self) of
          Inl e \<Rightarrow> Inl e
        | Inr response \<Rightarrow>
            (case raise_for_status response of
               Inl e \<Rightarrow> Inl e
             | Inr u \<Rightarrow>
                 Inr (concat (map (\<lambda>(page_id, pd).
                                case pd_categories pd of
                                  None \<Rightarrow> []
                                | Some cs \<Rightarrow> map (str_replace ''Category:'' []) cs)
                              (query_pages (resp_json response))))))
       (\<lambda>msg. Inr [])"

definition get_page ::
  "world \<Rightarrow> WikipediaAgent \<Rightarrow> string \<Rightarrow> bool \<Rightarrow> exn + WikipediaPage option" where
  "get_page get self title include_links =
     except_RequestException
       (case get (base_url self @ ''/page/html/'' @ quote title) [] (headers self) of
          Inl e \<Rightarrow> Inl e
        | Inr content_response \<Rightarrow>
            if status_code content_response = 404 then Inr None
            else
              (case raise_for_status content_response of
                 Inl e \<Rightarrow> Inl e
               | Inr u \<Rightarrow>
                   (let html_content = resp_text content_response
                    in case get (base_url self @ ''/page/summary/'' @ quote title) []
                              (headers self) of
                         Inl e \<Rightarrow> Inl e
                       | Inr summary_response \<Rightarrow>
                           (let summary_extract =
                                  (if status_code summary_response = 200
                                   then top_extract (resp_json summary_response) else None);
                                plain_text = extract_text_from_html html_content
                            in case get_page_categories_internal get self title of
                                 Inl e \<Rightarrow> Inl e
                               | Inr categories \<Rightarrow>
                                   (case (if include_links
                                          then get_page_links_internal get self title 50
                                          else Inr []) of
                                      Inl e \<Rightarrow> Inl e
                                    | Inr links \<Rightarrow>
                                        Inr (Some
                                          \<lparr>page_title = title,
                                           page_content = plain_text,
                                           page_url = ''https://'' @ language self
                                                        @ ''.wikipedia.org/wiki/'' @ quote title,
                                           page_summary =
                                             (case summary_extract of Some s \<Rightarrow> s | None \<Rightarrow> []),
                                           page_categories = categories,
                                           page_links = links\<rparr>))))))
       (\<lambda>msg. Inl (Exception (''Failed to retrieve page '' @ [CHR 0x27] @ title @ [CHR 0x27]
                               @ '': '' @ msg)))"

text \<open>
  The loop of \<^verbatim>\<open>get_summary\<close> over \<^verbatim>\<open>pages.items()\<close> returns at the first page whose
  identifier is not \<^verbatim>\<open>"-1"\<close>.
\<close>

fun first_existing_extract :: "(string \<times> page_data) list \<Rightarrow> string option" where
  "first_existing_extract [] = None"
| "first_existing_extract ((page_id, pd) # rest) =
     (if page_id \<noteq> ''-1'' then Some (case pd_extract pd of Some s \<Rightarrow> s | None \<Rightarrow> [])
      else first_existing_extract rest)"

definition get_summary :: "world \<Rightarrow> WikipediaAgent \<Rightarrow> string \<Rightarrow> int \<Rightarrow> exn + string option" where
  "get_summary get self title sentences =
     except_RequestException
       (case get (api_url self)
               [(''action'', PStr ''query''), (''format'', PStr ''json''),
                (''prop'', PStr ''extracts''), (''exintro'', PBool True),
                (''explaintext'', PBool True), (''exsentences'', PInt sentences),
                (''titles'', PStr title)]
               (headers self) of
          Inl e \<Rightarrow> Inl e
        | Inr response \<Rightarrow>
            (case raise_for_status response of
               Inl e \<Rightarrow> Inl e
             | Inr u \<Rightarrow> Inr (first_existing_extract (query_pages (resp_json response)))))
       (\<lambda>msg. Inl (Exception (''Failed to get summary for '' @ [CHR 0x27] @ title @ [CHR 0x27]
                               @ '': '' @ msg)))"

section \<open>The batch helpers\<close>

fun str_exn :: "exn \<Rightarrow> string" where
  "str_exn (RequestException msg) = msg"
| "str_exn (Exception msg) = msg"
| "str_exn (IndexError msg) = msg"
| "str_exn (KeyError msg) = msg"
| "str_exn (AttributeError msg) = msg"
| "str_exn (PackageNotFoundError msg) = msg"

text \<open>
  \<^verbatim>\<open>create_knowledge_base\<close>: the loop body sits in \<^verbatim>\<open>try ... except Exception\<close>, so every
  exception of \<^verbatim>\<open>get_page\<close> ends in a printed line.  The state of the loop is the
  dictionary and the lines printed so far.
\<close>

fun create_knowledge_base_loop ::
  "world \<Rightarrow> WikipediaAgent \<Rightarrow> (string \<rightharpoonup> WikipediaPage) \<times> string list \<Rightarrow> string list
     \<Rightarrow> (string \<rightharpoonup> WikipediaPage) \<times> string list" where
  "create_knowledge_base_loop get agent (kb, out) [] = (kb, out)"
| "create_knowledge_base_loop get agent (kb, out) (topic # topics) =
     (case get_page get agent topic True of
        Inr (Some page) \<Rightarrow>
          create_knowledge_base_loop get agent
            (kb(topic \<mapsto> page), out @ [''Added: '' @ topic]) topics
      | Inr None \<Rightarrow>
          create_knowledge_base_loop get agent (kb, out @ [''Not found: '' @ topic]) topics
      | Inl e \<Rightarrow>
          create_knowledge_base_loop get agent
            (kb, out @ [''Error with '' @ topic @ '': '' @ str_exn e]) topics)"

definition create_knowledge_base ::
  "world \<Rightarrow> WikipediaAgent \<Rightarrow> string list \<Rightarrow> (string \<rightharpoonup> WikipediaPage) \<times> string list" where
  "create_knowledge_base get agent topics =
     create_knowledge_base_loop get agent (Map.empty, []) topics"

record summary_entry =
  se_title :: string
  se_url :: string
  se_summary :: "string option"
  se_snippet :: string

text \<open>
  \<^verbatim>\<open>search_and_summarize\<close>: neither the search nor the \<^verbatim>\<open>get_summary\<close> of the loop body is
  inside a \<^verbatim>\<open>try\<close>, so the first exception ends the call.
\<close>

fun search_and_summarize_loop ::
  "world \<Rightarrow> WikipediaAgent \<Rightarrow> summary_entry list \<Rightarrow> SearchResult list \<Rightarrow> exn + summary_entry list" where
  "search_and_summarize_loop get agent summaries [] = Inr summaries"
| "search_and_summarize_loop get agent summaries (result # results) =
     (case get_summary get agent (sr_title result) 3 of
        Inl e \<Rightarrow> Inl e
      | Inr summary \<Rightarrow>
          search_and_summarize_loop get agent
            (summaries @ [\<lparr>se_title = sr_title result, se_url = sr_url result,
                           se_summary = summary, se_snippet = sr_snippet result\<rparr>])
            results)"

definition search_and_summarize ::
  "world \<Rightarrow> WikipediaAgent \<Rightarrow> string \<Rightarrow> int \<Rightarrow> exn + summary_entry list" where
  "search_and_summarize get agent query num_results =
     (case search get agent query num_results of
        Inl e \<Rightarrow> Inl e
      | Inr search_results \<Rightarrow> search_and_summarize_loop get agent [] search_results)"

section \<open>Document assembly: \<^verbatim>\<open>PowerPointTool\<close>\<close>

text \<open>
  Modelled from the spec: the slide-deck library (\<^verbatim>\<open>python-pptx\<close>) is not part of the
  repository.  Following the spec's data model, a Presentation is an ordered sequence
  of slides, a slide has a layout kind and an ordered sequence of shapes, and a shape
  that carries text holds a sequence of paragraphs, each with its text (kept as
  assigned) and its outline level.  A new slide receives the placeholders of its
  layout: a title (index 0) and a second placeholder (index 1) for the title and the
  title+content layouts, nothing for the blank one.  The text of a shape is its
  paragraphs joined by a newline.
\<close>

record para =
  par_text :: string
  par_level :: nat

datatype shape =
    Placeholder nat "para list"
  | TextBox "para list"
  | Picture string

datatype layout = TitleSlide | TitleAndContent | Blank

record slide =
  layout :: layout
  shapes :: "shape list"

record presentation =
  slides :: "slide list"

definition Presentation :: presentation where
  "Presentation = \<lparr>slides = []\<rparr>"

definition empty_paragraph :: para where
  "empty_paragraph = \<lparr>par_text = [], par_level = 0\<rparr>"

fun new_slide :: "layout \<Rightarrow> slide" where
  "new_slide TitleSlide =
     \<lparr>layout = TitleSlide,
      shapes = [Placeholder 0 [empty_paragraph], Placeholder 1 [empty_paragraph]]\<rparr>"
| "new_slide TitleAndContent =
     \<lparr>layout = TitleAndContent,
      shapes = [Placeholder 0 [empty_paragraph], Placeholder 1 [empty_paragraph]]\<rparr>"
| "new_slide Blank = \<lparr>layout = Blank, shapes = []\<rparr>"

fun join :: "string \<Rightarrow> string list \<Rightarrow> string" where
  "join sep [] = []"
| "join sep [x] = x"
| "join sep (x # y # ys) = x @ sep @ join sep (y # ys)"

text \<open>\<^verbatim>\<open>hasattr(shape, "text")\<close> and \<^verbatim>\<open>shape.text\<close>: a picture has no text.\<close>

fun has_text :: "shape \<Rightarrow> bool" where
  "has_text (Placeholder i ps) = True"
| "has_text (TextBox ps) = True"
| "has_text (Picture path) = False"

fun shape_text :: "shape \<Rightarrow> string" where
  "shape_text (Placeholder i ps) = join [CHR 0x0A] (map par_text ps)"
| "shape_text (TextBox ps) = join [CHR 0x0A] (map par_text ps)"
| "shape_text (Picture path) = []"

fun has_placeholder :: "nat \<Rightarrow> shape list \<Rightarrow> bool" where
  "has_placeholder i [] = False"
| "has_placeholder i (Placeholder j ps # shs) = (i = j \<or> has_placeholder i shs)"
| "has_placeholder i (sh # shs) = has_placeholder i shs"

text \<open>The paragraphs of the first placeholder with index \<open>i\<close> are replaced by \<open>f\<close> of them.\<close>

fun update_placeholder ::
  "nat \<Rightarrow> (para list \<Rightarrow> para list) \<Rightarrow> shape list \<Rightarrow> shape list" where
  "update_placeholder i f [] = []"
| "update_placeholder i f (Placeholder j ps # shs) =
     (if i = j then Placeholder j (f ps) # shs
      else Placeholder j ps # update_placeholder i f shs)"
| "update_placeholder i f (sh # shs) = sh # update_placeholder i f shs"

fun placeholder_paragraphs :: "nat \<Rightarrow> shape list \<Rightarrow> para list option" where
  "placeholder_paragraphs i [] = None"
| "placeholder_paragraphs i (Placeholder j ps # shs) =
     (if i = j then Some ps else placeholder_paragraphs i shs)"
| "placeholder_paragraphs i (sh # shs) = placeholder_paragraphs i shs"

text \<open>
  Indexing a Python sequence: a negative index counts from the end, an index outside
  the sequence raises \<^verbatim>\<open>IndexError\<close>.
\<close>

definition py_index :: "'a list \<Rightarrow> int \<Rightarrow> string \<Rightarrow> exn + 'a" where
  "py_index xs i msg =
     (if 0 \<le> i \<and> i < int (length xs) then Inr (xs ! nat i)
      else if i < 0 \<and> - int (length xs) \<le> i then Inr (xs ! nat (int (length xs) + i))
      else Inl (IndexError msg))"

record PowerPointTool =
  prs :: presentation

definition PowerPointTool_init :: PowerPointTool where
  "PowerPointTool_init = \<lparr>prs = Presentation\<rparr>"

text \<open>
  The file system as \<^verbatim>\<open>load_presentation\<close> sees it: a path names nothing, a saved
  presentation, or something that is no presentation (the library then raises).
  What \<^verbatim>\<open>print\<close> writes is returned as a list of lines beside the result.
\<close>

datatype fs_entry = PptxFile presentation | OtherFile

definition load_presentation ::
  "(string \<rightharpoonup> fs_entry) \<Rightarrow> PowerPointTool \<Rightarrow> string \<Rightarrow> exn + (PowerPointTool \<times> string list)" where
  "load_presentation fs self file_path =
     (case fs file_path of
        Some (PptxFile p) \<Rightarrow> Inr (self\<lparr>prs := p\<rparr>, [''Loaded presentation: '' @ file_path])
      | Some OtherFile \<Rightarrow> Inl (PackageNotFoundError file_path)
      | None \<Rightarrow> Inr (self, [''File not found: '' @ file_path]))"

text \<open>
  The loop of \<^verbatim>\<open>add_content_slide\<close> over \<^verbatim>\<open>enumerate(content_points)\<close>: the first point goes
  into \<^verbatim>\<open>paragraphs[0]\<close>, every other one into a paragraph added at the end.
\<close>

fun fill_paragraphs :: "para list \<Rightarrow> (nat \<times> string) list \<Rightarrow> exn + para list" where
  "fill_paragraphs ps [] = Inr ps"
| "fill_paragraphs ps ((i, point) # rest) =
     (if i = 0
      then (case ps of
              [] \<Rightarrow> Inl (IndexError ''list index out of range'')
            | p # ps' \<Rightarrow> fill_paragraphs (\<lparr>par_text = point, par_level = 0\<rparr> # ps') rest)
      else fill_paragraphs (ps @ [\<lparr>par_text = point, par_level = 0\<rparr>]) rest)"

definition add_content_slide ::
  "PowerPointTool \<Rightarrow> string \<Rightarrow> string list \<Rightarrow> exn + (PowerPointTool \<times> slide)" where
  "add_content_slide self title content_points =
     (let sl = new_slide TitleAndContent
      in if \<not> has_placeholder 0 (shapes sl)
         then Inl (AttributeError ''NoneType object has no attribute text'')
         else if \<not> has_placeholder 1 (shapes sl)
         then Inl (KeyError ''no placeholder on this slide with idx == 1'')
         else (let shs = update_placeholder 0
                           (\<lambda>ps. [\<lparr>par_text = title, par_level = 0\<rparr>]) (shapes sl)
               in case fill_paragraphs [empty_paragraph] (enumerate 0 content_points) of
                    Inl e \<Rightarrow> Inl e
                  | Inr ps \<Rightarrow>
                      (let sl' = sl\<lparr>shapes := update_placeholder 1 (\<lambda>old. ps) shs\<rparr>
                       in Inr (self\<lparr>prs := (prs self)\<lparr>slides :=
                                 slides (prs self) @ [sl']\<rparr>\<rparr>, sl'))))"

definition get_slide_count :: "PowerPointTool \<Rightarrow> nat" where
  "get_slide_count self = length (slides (prs self))"

definition get_slide_text :: "PowerPointTool \<Rightarrow> int \<Rightarrow> exn + string" where
  "get_slide_text self slide_index =
     (if slide_index \<ge> int (length (slides (prs self)))
      then Inr ''Slide index out of range''
      else (case py_index (slides (prs self)) slide_index ''slide index out of range'' of
              Inl e \<Rightarrow> Inl e
            | Inr sl \<Rightarrow>
                Inr (join [CHR 0x0A] (map shape_text (filter has_text (shapes sl))))))"

section \<open>Example inputs\<close>

text \<open>Concrete agents, remote sources and tools at which the theorems below are evaluated.\<close>

definition example_agent :: WikipediaAgent where
  "example_agent = WikipediaAgent_init ''en'' ''WikipediaAgent/1.0''"

definition empty_data :: api_data where
  "empty_data = \<lparr>top_extract = None, query_search = [], query_pages = []\<rparr>"

definition world_not_found :: world where
  "world_not_found = (\<lambda>url params hdrs.
     Inr \<lparr>status_code = 404, http_error_msg = ''404 Client Error: Not Found for url: '' @ url,
          resp_text = [], resp_json = empty_data\<rparr>)"

definition world_ok :: world where
  "world_ok = (\<lambda>url params hdrs.
     Inr \<lparr>status_code = 200, http_error_msg = [],
          resp_text = ''<p>Hello <b>world</b>[1]</p>'',
          resp_json = \<lparr>top_extract = Some ''Hello'', query_search = [],
                       query_pages = [(''1'', \<lparr>pd_extract = None, pd_links = Some [''Y''],
                                               pd_categories = Some [''Category:Z'']\<rparr>)]\<rparr>\<rparr>)"

text \<open>Every request is answered, except the summary request for the title \<^verbatim>\<open>X\<close>.\<close>

definition world_summary_down :: world where
  "world_summary_down = (\<lambda>url params hdrs.
     if url = ''https://en.wikipedia.org/api/rest_v1/page/summary/X''
     then Inl (RequestException ''connection refused'')
     else Inr \<lparr>status_code = 200, http_error_msg = [], resp_text = ''<p>Hello</p>'',
               resp_json = empty_data\<rparr>)"

text \<open>The search is answered with one result; every other request fails in transport.\<close>

definition world_get_summary_down :: world where
  "world_get_summary_down = (\<lambda>url params hdrs.
     if map_of params ''list'' = Some (PStr ''search'')
     then Inr \<lparr>status_code = 200, http_error_msg = [], resp_text = [],
               resp_json = \<lparr>top_extract = None,
                            query_search = [\<lparr>item_title = ''A'', item_snippet = Some ''<b>a</b>'',
                                             item_size = Some 1, item_timestamp = None\<rparr>],
                            query_pages = []\<rparr>\<rparr>
     else Inl (RequestException ''timed out''))"

definition one_slide_tool :: PowerPointTool where
  "one_slide_tool = \<lparr>prs = \<lparr>slides = [new_slide Blank]\<rparr>\<rparr>"

section \<open>The regular expressions compute the steps of the specification\<close>

lemma match_plus_then_lit:
  assumes "\<And>c. cls_match k c \<Longrightarrow> c \<noteq> g"
  shows "match_here [Plus k, One (Lit g)] cs =
     (if takeWhile (cls_match k) cs \<noteq> [] \<and> dropWhile (cls_match k) cs \<noteq> []
         \<and> hd (dropWhile (cls_match k) cs) = g
      then Some (tl (dropWhile (cls_match k) cs)) else None)"
proof (induction cs)
  case Nil
  show ?case by simp
next
  case (Cons c cs)
  show ?case
  proof (cases "cls_match k c")
    case False
    then show ?thesis by simp
  next
    case True
    note hit = this
    show ?thesis
    proof (cases cs)
      case Nil
      with hit show ?thesis by simp
    next
      case (Cons d ds)
      show ?thesis
      proof (cases "cls_match k d")
        case True
        with hit Cons.IH Cons assms [of d] show ?thesis by auto
      next
        case False
        with hit Cons.IH Cons show ?thesis by auto
      qed
    qed
  qed
qed

lemma match_plus_only:
  "match_here [Plus k] cs =
     (if takeWhile (cls_match k) cs \<noteq> [] then Some (dropWhile (cls_match k) cs) else None)"
proof (induction cs)
  case Nil
  show ?case by simp
next
  case (Cons c cs)
  then show ?case by (cases cs) auto
qed


lemma match_tag_re:
  "match_here tag_re s = (case s of [] \<Rightarrow> None | c # cs \<Rightarrow> if c = CHR ''<'' then tag_body cs else None)"
proof -
  have "cls_match (NotLit (CHR ''>'')) = (\<lambda>c. c \<noteq> CHR ''>'')"
    by (rule ext) simp
  then have "match_here [Plus (NotLit (CHR ''>'')), One (Lit (CHR ''>''))] cs = tag_body cs" for cs
    using match_plus_then_lit [of "NotLit (CHR ''>'')" "CHR ''>''" cs] hd_dropWhile [of "\<lambda>c. c \<noteq> CHR ''>''" cs]
    by (auto simp: tag_body_def)
  then show ?thesis
    by (cases s) (simp_all add: tag_re_def)
qed

lemma match_ref_re:
  "match_here ref_re s = (case s of [] \<Rightarrow> None | c # cs \<Rightarrow> if c = CHR ''['' then ref_body cs else None)"
proof -
  have same: "cls_match Digit = is_digit"
    by (rule ext) simp
  have differ: "cls_match Digit c \<Longrightarrow> c \<noteq> CHR '']''" for c
    by (auto simp: is_digit_def)
  have "match_here [Plus Digit, One (Lit (CHR '']''))] cs = ref_body cs" for cs
    using match_plus_then_lit [of Digit "CHR '']''" cs, OF differ]
    by (simp only: ref_body_def same)
  then show ?thesis
    by (cases s) (simp_all add: ref_re_def)
qed

lemma match_ws_re:
  "match_here ws_re s = (if takeWhile is_space s \<noteq> [] then Some (dropWhile is_space s) else None)"
proof -
  have "cls_match Space = is_space"
    by (rule ext) simp
  then show ?thesis
    using match_plus_only [of Space s] by (simp add: ws_re_def)
qed

lemma re_sub_tag_re: "re_sub tag_re [] s = spec_remove_tags s"
proof (induction s rule: spec_remove_tags.induct)
  case 1
  show ?case by (simp add: match_tag_re)
next
  case (2 c cs)
  then show ?case
    using tag_body_length [of cs]
    by (auto simp: match_tag_re split: option.splits)
qed

lemma re_sub_ref_re: "re_sub ref_re [] s = spec_remove_reference_markers s"
proof (induction s rule: spec_remove_reference_markers.induct)
  case 1
  show ?case by (simp add: match_ref_re)
next
  case (2 c cs)
  then show ?case
    using ref_body_length [of cs]
    by (auto simp: match_ref_re split: option.splits)
qed

lemma re_sub_ws_re: "re_sub ws_re '' '' s = spec_collapse_whitespace s"
proof (induction s rule: spec_collapse_whitespace.induct)
  case 1
  show ?case by (simp add: match_ws_re)
next
  case (2 c cs)
  then show ?case
    using dropWhile_length [of is_space cs]
    by (auto simp: match_ws_re)
qed

lemma dropWhile_before_stop:
  "\<not> P x \<Longrightarrow> dropWhile P (ys @ x # zs) = dropWhile P ys @ x # zs"
  by (induction ys) auto

lemma strip_eq_spec_trim: "strip s = spec_trim s"
proof (cases "\<forall>c\<in>set s. is_space c")
  case True
  then have "dropWhile is_space s = []" and "dropWhile is_space (rev s) = []"
    by (simp_all add: dropWhile_eq_Nil_conv)
  then show ?thesis by (simp only: strip_def spec_trim_def rev.simps dropWhile.simps)
next
  case False
  then have "\<exists>c\<in>set s. \<not> is_space c" by blast
  from split_list_first_prop [OF this]
  obtain a x r where s: "s = a @ x # r" and a: "\<forall>c\<in>set a. \<not> \<not> is_space c" and x: "\<not> is_space x"
    by blast
  define D where "D = dropWhile is_space (rev r)"
  have front: "dropWhile is_space (a @ x # ys) = x # ys" for ys
    using a x by (induction a) simp_all
  have trail: "dropWhile is_space (rev r @ x # ys) = D @ x # ys" for ys
    unfolding D_def using x by (rule dropWhile_before_stop)
  have "strip s = rev (dropWhile is_space (rev r @ [x]))"
    by (simp only: strip_def s front rev.simps)
  also have "\<dots> = x # rev D"
    by (simp only: trail rev_append rev.simps append.simps)
  finally have left: "strip s = x # rev D" .
  have "spec_trim s = dropWhile is_space (rev (dropWhile is_space (rev r @ x # rev a)))"
    by (simp add: spec_trim_def s)
  also have "\<dots> = dropWhile is_space (a @ x # rev D)"
    by (simp only: trail rev_append rev.simps append.simps rev_rev_ident append_assoc)
  also have "\<dots> = x # rev D"
    by (rule front)
  finally show ?thesis
    using left by simp
qed


text \<open>
  Claim C2, as stated, fails: the two cleaners are different functions.
  \<^verbatim>\<open>_clean_html\<close> neither collapses whitespace nor removes reference markers.
\<close>

theorem clean_html_differs_from_extract:
  "clean_html ''a  b [1]'' = ''a  b [1]'' \<and> extract_text_from_html ''a  b [1]'' = ''a b''"
  by (simp add: clean_html_def extract_text_from_html_def tag_re_def ws_re_def ref_re_def
      strip_def is_space_def is_digit_def)

text \<open>
  Claim C2, amended.  \<^verbatim>\<open>_extract_text_from_html\<close> computes exactly the four steps of the
  specification, in its order.  \<^verbatim>\<open>_clean_html\<close> computes another transform: the same
  removal of tag spans, then the decoding of the four entities \<^verbatim>\<open>&quot; &amp; &lt; &gt;\<close>,
  then the same trim.
\<close>

theorem cleaners_compute_steps:
  "extract_text_from_html s = spec_clean s
   \<and> clean_html s =
       spec_trim (str_replace ''&gt;'' ''>''
                   (str_replace ''&lt;'' ''<''
                     (str_replace ''&amp;'' ''&''
                       (str_replace ''&quot;'' [CHR 0x22] (spec_remove_tags s)))))"
  by (simp add: extract_text_from_html_def clean_html_def spec_clean_def re_sub_tag_re
      re_sub_ws_re re_sub_ref_re strip_eq_spec_trim)

section \<open>What the cleaners remove, and when cleaning twice changes nothing\<close>

lemma tag_body_None_iff:
  "tag_body cs = None \<longleftrightarrow> cs = [] \<or> hd cs = CHR ''>'' \<or> CHR ''>'' \<notin> set cs"
  by (cases cs) (auto simp: tag_body_def dropWhile_eq_Nil_conv)

lemma set_tl_subset: "set (tl xs) \<subseteq> set xs"
  by (cases xs) auto

lemma set_tl_dropWhile: "set (tl (dropWhile P xs)) \<subseteq> set xs"
  using set_tl_subset [of "dropWhile P xs"] set_dropWhileD [of _ P xs] by blast

lemma set_tag_body: "tag_body cs = Some rest \<Longrightarrow> set rest \<subseteq> set cs"
  using set_tl_dropWhile [of "\<lambda>c. c \<noteq> CHR ''>''" cs]
  by (auto simp: tag_body_def split: if_splits)

lemma set_ref_body: "ref_body cs = Some rest \<Longrightarrow> set rest \<subseteq> set cs"
  using set_tl_dropWhile [of is_digit cs]
  by (auto simp: ref_body_def split: if_splits)

lemma set_spec_remove_tags: "set (spec_remove_tags s) \<subseteq> set s"
proof (induction s rule: spec_remove_tags.induct)
  case 1
  show ?case by simp
next
  case (2 c cs)
  show ?case
  proof (cases "c = CHR ''<''")
    case False
    with 2 show ?thesis by auto
  next
    case True
    show ?thesis
    proof (cases "tag_body cs")
      case None
      with True 2 show ?thesis by auto
    next
      case (Some rest)
      with True 2 have "set (spec_remove_tags rest) \<subseteq> set rest" by simp
      with set_tag_body [OF Some] True Some show ?thesis by auto
    qed
  qed
qed

lemma set_spec_remove_reference_markers: "set (spec_remove_reference_markers s) \<subseteq> set s"
proof (induction s rule: spec_remove_reference_markers.induct)
  case 1
  show ?case by simp
next
  case (2 c cs)
  show ?case
  proof (cases "c = CHR ''[''")
    case False
    with 2 show ?thesis by auto
  next
    case True
    show ?thesis
    proof (cases "ref_body cs")
      case None
      with True 2 show ?thesis by auto
    next
      case (Some rest)
      with True 2 have "set (spec_remove_reference_markers rest) \<subseteq> set rest" by simp
      with set_ref_body [OF Some] True Some show ?thesis by auto
    qed
  qed
qed

lemma set_spec_collapse_whitespace:
  "set (spec_collapse_whitespace s) \<subseteq> insert (CHR '' '') (set s)"
proof (induction s rule: spec_collapse_whitespace.induct)
  case 1
  show ?case by simp
next
  case (2 c cs)
  then show ?case
    using set_dropWhileD [of _ is_space cs] by (cases "is_space c") auto
qed

lemma spec_remove_tags_no_tag: "\<not> has_tag_span (spec_remove_tags s)"
proof (induction s rule: spec_remove_tags.induct)
  case 1
  show ?case by simp
next
  case (2 c cs)
  show ?case
  proof (cases "c = CHR ''<''")
    case False
    with 2 show ?thesis by simp
  next
    case True
    show ?thesis
    proof (cases "tag_body cs")
      case (Some rest)
      with True 2 show ?thesis by simp
    next
      case None
      then have "tag_body (spec_remove_tags cs) = None"
        unfolding tag_body_None_iff using set_spec_remove_tags [of cs]
        by (cases cs) auto
      with True None 2 show ?thesis by simp
    qed
  qed
qed


lemma has_tag_span_suffix: "has_tag_span b \<Longrightarrow> has_tag_span (a @ b)"
  by (induction a) simp_all

lemma tag_body_prefix: "tag_body cs \<noteq> None \<Longrightarrow> tag_body (cs @ b) \<noteq> None"
  unfolding tag_body_None_iff by (cases cs) auto

lemma has_tag_span_prefix: "has_tag_span a \<Longrightarrow> has_tag_span (a @ b)"
proof (induction a)
  case Nil
  then show ?case by simp
next
  case (Cons c a)
  then show ?case
    using tag_body_prefix [of a b] by auto
qed

lemma strip_infix: "\<exists>a b. s = a @ strip s @ b"
proof -
  define t where "t = dropWhile is_space s"
  have "s = takeWhile is_space s @ t"
    by (simp add: t_def)
  moreover have "rev t = takeWhile is_space (rev t) @ dropWhile is_space (rev t)"
    by simp
  then have "t = strip s @ rev (takeWhile is_space (rev t))"
    unfolding strip_def t_def by (metis rev_append rev_rev_ident)
  ultimately have "s = takeWhile is_space s @ strip s @ rev (takeWhile is_space (rev t))"
    by simp
  then show ?thesis by blast
qed

lemma strip_no_tag: "\<not> has_tag_span s \<Longrightarrow> \<not> has_tag_span (strip s)"
proof
  assume clean: "\<not> has_tag_span s" and "has_tag_span (strip s)"
  obtain a b where s: "s = a @ strip s @ b"
    using strip_infix by blast
  from \<open>has_tag_span (strip s)\<close> have "has_tag_span (a @ strip s @ b)"
    by (intro has_tag_span_suffix has_tag_span_prefix)
  with s clean show False by simp
qed

lemma spec_collapse_whitespace_no_tag:
  "\<not> has_tag_span s \<Longrightarrow> \<not> has_tag_span (spec_collapse_whitespace s)"
proof (induction s rule: spec_collapse_whitespace.induct)
  case 1
  show ?case by simp
next
  case (2 c cs)
  have gt: "\<not> is_space (CHR ''>'')" and lt: "\<not> is_space (CHR ''<'')"
    by (simp_all add: is_space_def)
  show ?case
  proof (cases "is_space c")
    case True
    have "cs = takeWhile is_space cs @ dropWhile is_space cs"
      by simp
    then have "has_tag_span (dropWhile is_space cs) \<Longrightarrow> has_tag_span cs"
      using has_tag_span_suffix by metis
    with 2 True lt show ?thesis by auto
  next
    case False
    have "tag_body (spec_collapse_whitespace cs) = None" if "tag_body cs = None"
      using that gt set_spec_collapse_whitespace [of cs]
      unfolding tag_body_None_iff by (cases cs) auto
    with 2 False show ?thesis by auto
  qed
qed

lemma spec_remove_reference_markers_no_tag:
  "\<not> has_tag_span s \<Longrightarrow> \<not> has_tag_span (spec_remove_reference_markers s)"
proof (induction s rule: spec_remove_reference_markers.induct)
  case 1
  show ?case by simp
next
  case (2 c cs)
  have keep: "tag_body (spec_remove_reference_markers cs) = None" if "tag_body cs = None"
    using that set_spec_remove_reference_markers [of cs]
    unfolding tag_body_None_iff by (cases cs) auto
  show ?case
  proof (cases "c = CHR ''[''")
    case False
    with 2 keep show ?thesis by auto
  next
    case True
    show ?thesis
    proof (cases "ref_body cs")
      case None
      with 2 True show ?thesis by simp
    next
      case (Some rest)
      then have "rest = tl (dropWhile is_digit cs)" and "dropWhile is_digit cs \<noteq> []"
        by (auto simp: ref_body_def split: if_splits)
      then have "cs = (takeWhile is_digit cs @ [hd (dropWhile is_digit cs)]) @ rest"
        by simp
      then have "has_tag_span rest \<Longrightarrow> has_tag_span cs"
        using has_tag_span_suffix by metis
      with 2 True Some show ?thesis by auto
    qed
  qed
qed

lemma ref_body_digits_then:
  assumes "\<forall>d\<in>set ds. is_digit d" and "\<not> is_digit x"
  shows "ref_body (ds @ x # ys) = (if ds \<noteq> [] \<and> x = CHR '']'' then Some ys else None)"
proof -
  have tw: "takeWhile is_digit (ds @ x # ys) = ds"
    and dw: "dropWhile is_digit (ds @ x # ys) = x # ys"
    using assms by (simp_all add: takeWhile_append2 dropWhile_append2)
  show ?thesis
    unfolding ref_body_def tw dw by simp
qed



lemma has_ref_marker_suffix: "has_ref_marker b \<Longrightarrow> has_ref_marker (a @ b)"
  by (induction a) simp_all











lemma spec_remove_tags_fixed: "\<not> has_tag_span s \<Longrightarrow> spec_remove_tags s = s"
proof (induction s rule: spec_remove_tags.induct)
  case 1
  show ?case by simp
next
  case (2 c cs)
  then show ?case by (cases "tag_body cs") auto
qed

lemma spec_remove_reference_markers_fixed:
  "\<not> has_ref_marker s \<Longrightarrow> spec_remove_reference_markers s = s"
proof (induction s rule: spec_remove_reference_markers.induct)
  case 1
  show ?case by simp
next
  case (2 c cs)
  then show ?case by (cases "ref_body cs") auto
qed

lemma spec_collapse_whitespace_normal: "ws_normal (spec_collapse_whitespace s)"
proof (induction s rule: spec_collapse_whitespace.induct)
  case 1
  show ?case by simp
next
  case (2 c cs)
  show ?case
  proof (cases "is_space c")
    case False
    with 2 show ?thesis by simp
  next
    case True
    have "case spec_collapse_whitespace (dropWhile is_space cs) of [] \<Rightarrow> True | d # ds \<Rightarrow> \<not> is_space d"
    proof (cases "dropWhile is_space cs")
      case Nil
      show ?thesis unfolding Nil by simp
    next
      case (Cons x r)
      then have "\<not> is_space x"
        using hd_dropWhile [of is_space cs] by simp
      with Cons show ?thesis by simp
    qed
    with 2 True show ?thesis by simp
  qed
qed

lemma spec_collapse_whitespace_fixed: "ws_normal s \<Longrightarrow> spec_collapse_whitespace s = s"
proof (induction s rule: spec_collapse_whitespace.induct)
  case 1
  show ?case by simp
next
  case (2 c cs)
  show ?case
  proof (cases "is_space c")
    case False
    with 2 show ?thesis by simp
  next
    case True
    with 2 have "dropWhile is_space cs = cs"
      by (cases cs) auto
    with 2 True show ?thesis by simp
  qed
qed

lemma strip_strip: "strip (strip s) = strip s"
proof -
  have "dropWhile is_space (strip s) = strip s"
    unfolding strip_eq_spec_trim spec_trim_def by (rule dropWhile_idem)
  moreover have "dropWhile is_space (rev (strip s)) = rev (strip s)"
    unfolding strip_def rev_rev_ident by (rule dropWhile_idem)
  ultimately show ?thesis
    by (simp add: strip_def [of "strip s"])
qed


lemma has_tag_span_iff:
  "has_tag_span s \<longleftrightarrow>
     (\<exists>a m b. s = a @ CHR ''<'' # m @ CHR ''>'' # b \<and> m \<noteq> [] \<and> CHR ''>'' \<notin> set m)"
proof
  assume "has_tag_span s"
  then show "\<exists>a m b. s = a @ CHR ''<'' # m @ CHR ''>'' # b \<and> m \<noteq> [] \<and> CHR ''>'' \<notin> set m"
  proof (induction s)
    case Nil
    then show ?case by simp
  next
    case (Cons c cs)
    show ?case
    proof (cases "c = CHR ''<'' \<and> tag_body cs \<noteq> None")
      case True
      define m where "m = takeWhile (\<lambda>c. c \<noteq> CHR ''>'') cs"
      define r where "r = dropWhile (\<lambda>c. c \<noteq> CHR ''>'') cs"
      from True have m: "m \<noteq> []" and r: "r \<noteq> []"
        by (auto simp: tag_body_def m_def r_def split: if_splits)
      from r have "hd r = CHR ''>''"
        using hd_dropWhile [of "\<lambda>c. c \<noteq> CHR ''>''" cs] by (simp add: r_def)
      with r have "r = CHR ''>'' # tl r"
        by (cases r) auto
      moreover have "cs = m @ r"
        by (simp add: m_def r_def)
      ultimately have "c # cs = [] @ CHR ''<'' # m @ CHR ''>'' # tl r"
        using True by simp
      moreover have "CHR ''>'' \<notin> set m"
        by (auto simp: m_def dest: set_takeWhileD)
      ultimately show ?thesis
        using m by blast
    next
      case False
      with Cons.prems have "has_tag_span cs" by auto
      from Cons.IH [OF this] obtain a m b
        where "cs = a @ CHR ''<'' # m @ CHR ''>'' # b" and "m \<noteq> []" and "CHR ''>'' \<notin> set m"
        by blast
      then have "c # cs = (c # a) @ CHR ''<'' # m @ CHR ''>'' # b"
        by simp
      with \<open>m \<noteq> []\<close> \<open>CHR ''>'' \<notin> set m\<close> show ?thesis by blast
    qed
  qed
next
  assume "\<exists>a m b. s = a @ CHR ''<'' # m @ CHR ''>'' # b \<and> m \<noteq> [] \<and> CHR ''>'' \<notin> set m"
  then obtain a m b where s: "s = a @ CHR ''<'' # m @ CHR ''>'' # b"
    and m: "m \<noteq> []" "CHR ''>'' \<notin> set m"
    by blast
  from m have "tag_body (m @ CHR ''>'' # b) \<noteq> None"
    unfolding tag_body_None_iff by (cases m) auto
  then have "has_tag_span (CHR ''<'' # m @ CHR ''>'' # b)"
    by simp
  then show "has_tag_span s"
    unfolding s by (rule has_tag_span_suffix)
qed

lemma has_ref_marker_iff:
  "has_ref_marker s \<longleftrightarrow>
     (\<exists>a ds b. s = a @ CHR ''['' # ds @ CHR '']'' # b \<and> ds \<noteq> [] \<and> (\<forall>d\<in>set ds. is_digit d))"
proof
  assume "has_ref_marker s"
  then show "\<exists>a ds b. s = a @ CHR ''['' # ds @ CHR '']'' # b \<and> ds \<noteq> [] \<and> (\<forall>d\<in>set ds. is_digit d)"
  proof (induction s)
    case Nil
    then show ?case by simp
  next
    case (Cons c cs)
    show ?case
    proof (cases "c = CHR ''['' \<and> ref_body cs \<noteq> None")
      case True
      define ds where "ds = takeWhile is_digit cs"
      define r where "r = dropWhile is_digit cs"
      from True have ds: "ds \<noteq> []" and r: "r \<noteq> []" and "hd r = CHR '']''"
        by (auto simp: ref_body_def ds_def r_def split: if_splits)
      then have "r = CHR '']'' # tl r"
        by (cases r) auto
      moreover have "cs = ds @ r"
        by (simp add: ds_def r_def)
      ultimately have "c # cs = [] @ CHR ''['' # ds @ CHR '']'' # tl r"
        using True by simp
      moreover have "\<forall>d\<in>set ds. is_digit d"
        by (auto simp: ds_def dest: set_takeWhileD)
      ultimately show ?thesis
        using ds by blast
    next
      case False
      with Cons.prems have "has_ref_marker cs" by auto
      from Cons.IH [OF this] obtain a ds b
        where "cs = a @ CHR ''['' # ds @ CHR '']'' # b" and "ds \<noteq> []" and "\<forall>d\<in>set ds. is_digit d"
        by blast
      then have "c # cs = (c # a) @ CHR ''['' # ds @ CHR '']'' # b"
        by simp
      with \<open>ds \<noteq> []\<close> \<open>\<forall>d\<in>set ds. is_digit d\<close> show ?thesis by blast
    qed
  qed
next
  assume "\<exists>a ds b. s = a @ CHR ''['' # ds @ CHR '']'' # b \<and> ds \<noteq> [] \<and> (\<forall>d\<in>set ds. is_digit d)"
  then obtain a ds b where s: "s = a @ CHR ''['' # ds @ CHR '']'' # b"
    and ds: "ds \<noteq> []" "\<forall>d\<in>set ds. is_digit d"
    by blast
  have "\<not> is_digit (CHR '']'')"
    by (simp add: is_digit_def)
  with ds have "ref_body (ds @ CHR '']'' # b) = Some b"
    using ref_body_digits_then [of ds "CHR '']''" b] by simp
  then have "has_ref_marker (CHR ''['' # ds @ CHR '']'' # b)"
    by simp
  then show "has_ref_marker s"
    unfolding s by (rule has_ref_marker_suffix)
qed

lemma extract_text_from_html_steps:
  "extract_text_from_html s =
     strip (spec_remove_reference_markers (spec_collapse_whitespace (spec_remove_tags s)))"
  by (simp add: extract_text_from_html_def re_sub_tag_re re_sub_ws_re re_sub_ref_re)





text \<open>
  No step makes a text longer, and a step that finds something to remove makes it
  shorter.  So a cleaner returns its argument unchanged exactly when no step finds
  anything in it.
\<close>

lemma length_spec_remove_tags: "length (spec_remove_tags s) \<le> length s"
proof (induction s rule: spec_remove_tags.induct)
  case 1
  show ?case by simp
next
  case (2 c cs)
  show ?case
  proof (cases "c = CHR ''<'' \<and> tag_body cs \<noteq> None")
    case False
    with 2 show ?thesis by (cases "tag_body cs") auto
  next
    case True
    then obtain rest where rest: "tag_body cs = Some rest" by auto
    with True 2 have "length (spec_remove_tags rest) \<le> length rest" by simp
    with tag_body_length [OF rest] True rest show ?thesis by simp
  qed
qed

lemma spec_remove_tags_shrinks:
  "has_tag_span s \<Longrightarrow> length (spec_remove_tags s) < length s"
proof (induction s rule: spec_remove_tags.induct)
  case 1
  then show ?case by simp
next
  case (2 c cs)
  show ?case
  proof (cases "c = CHR ''<'' \<and> tag_body cs \<noteq> None")
    case False
    with 2 show ?thesis by (cases "tag_body cs") auto
  next
    case True
    then obtain rest where rest: "tag_body cs = Some rest" by auto
    have "length (spec_remove_tags rest) \<le> length rest"
      by (rule length_spec_remove_tags)
    with tag_body_length [OF rest] True rest show ?thesis by simp
  qed
qed

lemma length_spec_remove_reference_markers:
  "length (spec_remove_reference_markers s) \<le> length s"
proof (induction s rule: spec_remove_reference_markers.induct)
  case 1
  show ?case by simp
next
  case (2 c cs)
  show ?case
  proof (cases "c = CHR ''['' \<and> ref_body cs \<noteq> None")
    case False
    with 2 show ?thesis by (cases "ref_body cs") auto
  next
    case True
    then obtain rest where rest: "ref_body cs = Some rest" by auto
    with True 2 have "length (spec_remove_reference_markers rest) \<le> length rest" by simp
    with ref_body_length [OF rest] True rest show ?thesis by simp
  qed
qed

lemma spec_remove_reference_markers_shrinks:
  "has_ref_marker s \<Longrightarrow> length (spec_remove_reference_markers s) < length s"
proof (induction s rule: spec_remove_reference_markers.induct)
  case 1
  then show ?case by simp
next
  case (2 c cs)
  show ?case
  proof (cases "c = CHR ''['' \<and> ref_body cs \<noteq> None")
    case False
    with 2 show ?thesis by (cases "ref_body cs") auto
  next
    case True
    then obtain rest where rest: "ref_body cs = Some rest" by auto
    have "length (spec_remove_reference_markers rest) \<le> length rest"
      by (rule length_spec_remove_reference_markers)
    with ref_body_length [OF rest] True rest show ?thesis by simp
  qed
qed

lemma length_spec_collapse_whitespace: "length (spec_collapse_whitespace s) \<le> length s"
proof (induction s rule: spec_collapse_whitespace.induct)
  case 1
  show ?case by simp
next
  case (2 c cs)
  then show ?case
    using length_dropWhile_le [of is_space cs] by (cases "is_space c") auto
qed

lemma length_strip: "length (strip s) \<le> length s"
proof -
  obtain a b where "s = a @ strip s @ b"
    using strip_infix by blast
  then have "length s = length a + length (strip s) + length b"
    by (metis length_append add.assoc)
  then show ?thesis by simp
qed

lemma strip_same_length: "length (strip s) = length s \<Longrightarrow> strip s = s"
proof -
  assume same: "length (strip s) = length s"
  obtain a b where s: "s = a @ strip s @ b"
    using strip_infix by blast
  then have "length s = length a + length (strip s) + length b"
    by (metis length_append add.assoc)
  with same have "a = []" and "b = []" by simp_all
  with s show ?thesis by simp
qed


lemma spec_collapse_whitespace_fixed_iff: "spec_collapse_whitespace s = s \<longleftrightarrow> ws_normal s"
  using spec_collapse_whitespace_normal [of s] spec_collapse_whitespace_fixed [of s] by auto

lemma extract_text_from_html_fixed_iff:
  "extract_text_from_html t = t \<longleftrightarrow>
     \<not> has_tag_span t \<and> ws_normal t \<and> \<not> has_ref_marker t \<and> strip t = t"
proof
  assume "\<not> has_tag_span t \<and> ws_normal t \<and> \<not> has_ref_marker t \<and> strip t = t"
  then show "extract_text_from_html t = t"
    by (simp add: extract_text_from_html_steps spec_remove_tags_fixed
        spec_collapse_whitespace_fixed spec_remove_reference_markers_fixed)
next
  assume fixed: "extract_text_from_html t = t"
  define a where "a = spec_remove_tags t"
  define b where "b = spec_collapse_whitespace a"
  define c where "c = spec_remove_reference_markers b"
  have out: "strip c = t"
    using fixed by (simp add: extract_text_from_html_steps a_def b_def c_def)
  have la: "length a \<le> length t"
    unfolding a_def by (rule length_spec_remove_tags)
  have lb: "length b \<le> length a"
    unfolding b_def by (rule length_spec_collapse_whitespace)
  have lc: "length c \<le> length b"
    unfolding c_def by (rule length_spec_remove_reference_markers)
  have ls: "length (strip c) \<le> length c"
    by (rule length_strip)
  from out la lb lc ls have same: "length a = length t" "length b = length a"
    "length c = length b" "length (strip c) = length c"
    by simp_all
  have no_tag: "\<not> has_tag_span t"
    using same(1) spec_remove_tags_shrinks [of t] by (auto simp: a_def)
  then have a: "a = t"
    by (simp add: a_def spec_remove_tags_fixed)
  have "\<not> has_ref_marker b"
    using same(3) spec_remove_reference_markers_shrinks [of b] by (auto simp: c_def)
  then have c: "c = b"
    by (simp add: c_def spec_remove_reference_markers_fixed)
  have "strip c = c"
    using same(4) by (rule strip_same_length)
  with out c have b: "b = t" by simp
  then have "spec_collapse_whitespace t = t"
    using a by (simp add: b_def)
  then have "ws_normal t"
    by (simp add: spec_collapse_whitespace_fixed_iff)
  moreover have "\<not> has_ref_marker t"
    using \<open>\<not> has_ref_marker b\<close> b by simp
  moreover have "strip t = t"
    using \<open>strip c = c\<close> c b by simp
  ultimately show "\<not> has_tag_span t \<and> ws_normal t \<and> \<not> has_ref_marker t \<and> strip t = t"
    using no_tag by simp
qed

lemma extract_text_from_html_no_tag: "\<not> has_tag_span (extract_text_from_html s)"
  unfolding extract_text_from_html_steps
  by (intro strip_no_tag spec_remove_reference_markers_no_tag
      spec_collapse_whitespace_no_tag spec_remove_tags_no_tag)

lemma extract_text_from_html_stripped:
  "strip (extract_text_from_html s) = extract_text_from_html s"
  by (simp add: extract_text_from_html_steps strip_strip)

lemma str_replace_without: "old \<noteq> [] \<Longrightarrow> \<not> occurs_in old s \<Longrightarrow> str_replace old new s = s"
  by (induction s) simp_all

lemma length_str_replace:
  assumes "old \<noteq> []" and "length new \<le> length old"
  shows "length (str_replace old new s) \<le> length s"
  using assms
proof (induction old new s rule: str_replace.induct)
  case (1 old new)
  then show ?case by simp
next
  case (2 old new c cs)
  show ?case
  proof (cases "take (length old) (c # cs) = old")
    case False
    with 2 show ?thesis by simp
  next
    case True
    have fits: "length old \<le> length (c # cs)"
      using arg_cong [OF True, of length] by (simp add: min_def split: if_splits)
    from True 2 have "length (str_replace old new (drop (length old) (c # cs)))
        \<le> length (drop (length old) (c # cs))"
      by simp
    with True 2 fits show ?thesis by simp
  qed
qed

lemma str_replace_shrinks:
  assumes "old \<noteq> []" and "length new < length old" and "occurs_in old s"
  shows "length (str_replace old new s) < length s"
  using assms
proof (induction s)
  case Nil
  then show ?case by simp
next
  case (Cons c cs)
  show ?case
  proof (cases "take (length old) (c # cs) = old")
    case False
    with Cons show ?thesis by simp
  next
    case True
    have fits: "length old \<le> length (c # cs)"
      using arg_cong [OF True, of length] by (simp add: min_def split: if_splits)
    have "length (str_replace old new (drop (length old) (c # cs)))
        \<le> length (drop (length old) (c # cs))"
      using Cons.prems by (intro length_str_replace) simp_all
    with True Cons.prems fits show ?thesis by simp
  qed
qed


lemma clean_html_steps:
  "clean_html s =
     strip (str_replace ''&gt;'' ''>''
             (str_replace ''&lt;'' ''<''
               (str_replace ''&amp;'' ''&''
                 (str_replace ''&quot;'' [CHR 0x22] (spec_remove_tags s)))))"
  by (simp add: clean_html_def re_sub_tag_re)

lemma clean_html_fixed_iff:
  "clean_html t = t \<longleftrightarrow> \<not> has_tag_span t \<and> \<not> has_entity t \<and> strip t = t"
proof
  assume "\<not> has_tag_span t \<and> \<not> has_entity t \<and> strip t = t"
  then show "clean_html t = t"
    by (simp add: clean_html_steps has_entity_def spec_remove_tags_fixed str_replace_without)
next
  assume fixed: "clean_html t = t"
  define a where "a = spec_remove_tags t"
  define q where "q = str_replace ''&quot;'' [CHR 0x22] a"
  define m where "m = str_replace ''&amp;'' ''&'' q"
  define l where "l = str_replace ''&lt;'' ''<'' m"
  define g where "g = str_replace ''&gt;'' ''>'' l"
  have out: "strip g = t"
    using fixed by (simp add: clean_html_steps a_def q_def m_def l_def g_def)
  have la: "length a \<le> length t"
    unfolding a_def by (rule length_spec_remove_tags)
  have lq: "length q \<le> length a"
    unfolding q_def by (rule length_str_replace) simp_all
  have lm: "length m \<le> length q"
    unfolding m_def by (rule length_str_replace) simp_all
  have ll: "length l \<le> length m"
    unfolding l_def by (rule length_str_replace) simp_all
  have lg: "length g \<le> length l"
    unfolding g_def by (rule length_str_replace) simp_all
  have ls: "length (strip g) \<le> length g"
    by (rule length_strip)
  from out la lq lm ll lg ls have same: "length a = length t" "length q = length a"
    "length m = length q" "length l = length m" "length g = length l"
    "length (strip g) = length g"
    by simp_all
  have no_tag: "\<not> has_tag_span t"
    using same(1) spec_remove_tags_shrinks [of t] by (auto simp: a_def)
  then have a: "a = t"
    by (simp add: a_def spec_remove_tags_fixed)
  have nq: "\<not> occurs_in ''&quot;'' a"
    using same(2) str_replace_shrinks [of "''&quot;''" "[CHR 0x22]" a] by (auto simp: q_def)
  then have q: "q = a"
    by (simp add: q_def str_replace_without)
  have nm: "\<not> occurs_in ''&amp;'' q"
    using same(3) str_replace_shrinks [of "''&amp;''" "''&''" q] by (auto simp: m_def)
  then have m: "m = q"
    by (simp add: m_def str_replace_without)
  have nl: "\<not> occurs_in ''&lt;'' m"
    using same(4) str_replace_shrinks [of "''&lt;''" "''<''" m] by (auto simp: l_def)
  then have l: "l = m"
    by (simp add: l_def str_replace_without)
  have ng: "\<not> occurs_in ''&gt;'' l"
    using same(5) str_replace_shrinks [of "''&gt;''" "''>''" l] by (auto simp: g_def)
  then have g: "g = l"
    by (simp add: g_def str_replace_without)
  have "strip g = g"
    using same(6) by (rule strip_same_length)
  with out g l m q a have all: "g = t" "l = t" "m = t" "q = t"
    by simp_all
  have "\<not> has_entity t"
    using nq ng nl nm a all by (simp add: has_entity_def)
  moreover have "strip t = t"
    using \<open>strip g = g\<close> all by simp
  ultimately show "\<not> has_tag_span t \<and> \<not> has_entity t \<and> strip t = t"
    using no_tag by simp
qed

lemma clean_html_stripped: "strip (clean_html s) = clean_html s"
  by (simp add: clean_html_steps strip_strip)

text \<open>
  Claim C3, as stated, fails.  \<^verbatim>\<open>_extract_text_from_html\<close> collapses whitespace before it
  removes markers, so \<^verbatim>\<open>a [1] b\<close> becomes \<^verbatim>\<open>a  b\<close> with two spaces, which a second pass
  turns into \<^verbatim>\<open>a b\<close>.  \<^verbatim>\<open>_clean_html\<close> decodes \<^verbatim>\<open>&lt;b&gt;x\<close> to \<^verbatim>\<open><b>x\<close>, which a second pass
  strips to \<^verbatim>\<open>x\<close>.
\<close>

theorem cleaners_not_idempotent:
  "extract_text_from_html ''a [1] b'' = ''a  b''
   \<and> extract_text_from_html ''a  b'' = ''a b''
   \<and> clean_html ''&lt;b&gt;x'' = ''<b>x''
   \<and> clean_html ''<b>x'' = ''x''"
  by (simp add: extract_text_from_html_def clean_html_def tag_re_def ws_re_def ref_re_def
      strip_def is_space_def is_digit_def)

text \<open>
  Claim C3, amended.  The removal of tag spans is idempotent on every string.
  \<^verbatim>\<open>_extract_text_from_html\<close> applied to its own output returns that output exactly when
  in that output every whitespace character is a space that no whitespace follows and
  there is no reference marker.
  \<^verbatim>\<open>_clean_html\<close> applied to its own output returns that output exactly when that output
  contains no tag span and none of the entities \<^verbatim>\<open>&quot; &amp; &lt; &gt;\<close>.
\<close>

theorem cleaning_twice_characterised:
  "re_sub tag_re [] (re_sub tag_re [] s) = re_sub tag_re [] s
   \<and> (extract_text_from_html (extract_text_from_html s) = extract_text_from_html s
        \<longleftrightarrow> ws_normal (extract_text_from_html s)
            \<and> \<not> has_ref_marker (extract_text_from_html s))
   \<and> (clean_html (clean_html s) = clean_html s
        \<longleftrightarrow> \<not> has_tag_span (clean_html s) \<and> \<not> has_entity (clean_html s))"
proof (intro conjI)
  show "re_sub tag_re [] (re_sub tag_re [] s) = re_sub tag_re [] s"
    by (simp add: re_sub_tag_re spec_remove_tags_fixed spec_remove_tags_no_tag)
  show "extract_text_from_html (extract_text_from_html s) = extract_text_from_html s
      \<longleftrightarrow> ws_normal (extract_text_from_html s) \<and> \<not> has_ref_marker (extract_text_from_html s)"
    unfolding extract_text_from_html_fixed_iff [of "extract_text_from_html s"]
    using extract_text_from_html_no_tag [of s] extract_text_from_html_stripped [of s]
    by simp
  show "clean_html (clean_html s) = clean_html s
      \<longleftrightarrow> \<not> has_tag_span (clean_html s) \<and> \<not> has_entity (clean_html s)"
    unfolding clean_html_fixed_iff [of "clean_html s"]
    using clean_html_stripped [of s] by simp
qed

theorem cleaning_twice_characterised_witness:
  "ws_normal (extract_text_from_html ''<p>Paris[1] is the capital[2] of France.</p>'')
   \<and> \<not> has_ref_marker (extract_text_from_html ''<p>Paris[1] is the capital[2] of France.</p>'')
   \<and> extract_text_from_html (extract_text_from_html ''<p>Paris[1] is the capital[2] of France.</p>'')
       = extract_text_from_html ''<p>Paris[1] is the capital[2] of France.</p>''
   \<and> \<not> has_tag_span (clean_html ''Tom &amp; <b>Jerry</b>'')
   \<and> \<not> has_entity (clean_html ''Tom &amp; <b>Jerry</b>'')
   \<and> clean_html (clean_html ''Tom &amp; <b>Jerry</b>'') = clean_html ''Tom &amp; <b>Jerry</b>''"
proof -
  have page: "extract_text_from_html ''<p>Paris[1] is the capital[2] of France.</p>''
      = ''Paris is the capital of France.''"
    by (simp add: extract_text_from_html_def tag_re_def ws_re_def ref_re_def strip_def
        is_space_def is_digit_def)
  have normal: "ws_normal ''Paris is the capital of France.''"
    by (simp add: is_space_def)
  have ref_free: "\<not> has_ref_marker ''Paris is the capital of France.''"
    by simp
  have snippet: "clean_html ''Tom &amp; <b>Jerry</b>'' = ''Tom & Jerry''"
    by (simp add: clean_html_def tag_re_def strip_def is_space_def)
  have tag_free: "\<not> has_tag_span ''Tom & Jerry''"
    by simp
  have entity_free: "\<not> has_entity ''Tom & Jerry''"
    by (simp add: has_entity_def)
  from cleaning_twice_characterised [of "''<p>Paris[1] is the capital[2] of France.</p>''"]
    cleaning_twice_characterised [of "''Tom &amp; <b>Jerry</b>''"]
    normal ref_free tag_free entity_free
  show ?thesis
    unfolding page snippet by blast
qed

section \<open>Retrieval: not found, degraded fetches, batches\<close>

lemma except_RequestException_Inr:
  "except_RequestException body h = Inr v \<longleftrightarrow>
     body = Inr v \<or> (\<exists>msg. body = Inl (RequestException msg) \<and> h msg = Inr v)"
  by (cases "(body, h)" rule: except_RequestException.cases) auto

text \<open>
  Claim C4.  When the source answers the content fetch of a title with the HTTP status
  404, \<^verbatim>\<open>get_page\<close> returns \<^verbatim>\<open>None\<close>: the result is a value, no exception.
\<close>

theorem get_page_not_found:
  assumes "get (base_url self @ ''/page/html/'' @ quote title) [] (headers self) = Inr r"
    and "status_code r = 404"
  shows "get_page get self title include_links = Inr None"
  using assms by (simp add: get_page_def)

theorem get_page_not_found_witness:
  "get_page world_not_found example_agent ''No such page'' True = Inr None"
  by (rule get_page_not_found
        [where r = "\<lparr>status_code = 404,
                     http_error_msg = ''404 Client Error: Not Found for url: https://en.wikipedia.org/api/rest_v1/page/html/No%20such%20page'',
                     resp_text = [], resp_json = empty_data\<rparr>"])
     (simp_all add: world_not_found_def example_agent_def WikipediaAgent_init_def quote_def
        always_safe_def utf8_def percent_def hex_digit_def)

text \<open>
  The two secondary calls that have their own handler do degrade: when the request
  fails in transport, categories and links are empty and nothing is raised.
\<close>

lemma secondary_calls_degrade:
  assumes "\<And>params. get (api_url self) params (headers self) = Inl (RequestException msg)"
  shows "get_page_categories_internal get self title = Inr []"
    and "get_page_links_internal get self title limit = Inr []"
  using assms by (simp_all add: get_page_categories_internal_def get_page_links_internal_def)

text \<open>
  Claim C5.  The claim asks that a transport failure of the summary call leaves a
  PageRecord with an empty summary.  The summary request of \<^verbatim>\<open>get_page\<close> is made inside
  the \<^verbatim>\<open>try\<close> of the content fetch and has no handler of its own, so at the input below
  (content answered, summary request refused) the call raises
  \<^verbatim>\<open>Exception("Failed to retrieve page ...")\<close> and returns no record.
\<close>

theorem get_page_summary_transport_failure:
  "get_page world_summary_down example_agent ''X'' True =
     Inl (Exception ''Failed to retrieve page 'X': connection refused'')"
  by (simp add: get_page_def world_summary_down_def example_agent_def WikipediaAgent_init_def
      quote_def always_safe_def raise_for_status_def)

text \<open>
  \<^verbatim>\<open>create_knowledge_base\<close> does visit every topic: it prints one line for each, whatever
  \<^verbatim>\<open>get_page\<close> did.
\<close>

lemma create_knowledge_base_loop_lines:
  "length (snd (create_knowledge_base_loop get agent (kb, out) topics))
     = length out + length topics"
  by (induction topics arbitrary: kb out) (auto split: sum.splits option.splits)

text \<open>
  Claim C6.  The claim asks that both batch helpers skip an item whose retrieval
  fails.  \<^verbatim>\<open>search_and_summarize\<close> calls \<^verbatim>\<open>get_summary\<close> outside any \<^verbatim>\<open>try\<close>: at the input below
  (one search result, its summary request timing out) the exception of that item ends
  the whole call and no collection is returned.
\<close>

theorem search_and_summarize_aborts:
  "search_and_summarize world_get_summary_down example_agent ''q'' 3 =
     Inl (Exception ''Failed to get summary for 'A': timed out'')"
  by (simp add: search_and_summarize_def search_def get_summary_def world_get_summary_down_def
      example_agent_def WikipediaAgent_init_def raise_for_status_def)

text \<open>
  Claim C10.  Whenever \<^verbatim>\<open>get_page\<close> returns a PageRecord, its title is the title that was
  asked for, unchanged, and its address is \<^verbatim>\<open>https://<language>.wikipedia.org/wiki/\<close>
  followed by the percent-encoding of that title.
\<close>

theorem get_page_title_url:
  assumes "get_page get self title include_links = Inr (Some p)"
  shows "page_title p = title \<and>
         page_url p = ''https://'' @ language self @ ''.wikipedia.org/wiki/'' @ quote title"
  using assms unfolding get_page_def except_RequestException_Inr
  by (auto split: sum.splits if_splits simp: Let_def)

lemma get_page_ok_value:
  "get_page world_ok example_agent ''X y'' True =
     Inr (Some \<lparr>page_title = ''X y'', page_content = ''Hello world'',
                page_url = ''https://en.wikipedia.org/wiki/X%20y'', page_summary = ''Hello'',
                page_categories = [''Z''], page_links = [''Y'']\<rparr>)"
  by (simp add: get_page_def world_ok_def example_agent_def WikipediaAgent_init_def quote_def
      always_safe_def utf8_def percent_def hex_digit_def raise_for_status_def
      get_page_categories_internal_def get_page_links_internal_def
      extract_text_from_html_def tag_re_def ws_re_def ref_re_def strip_def is_space_def
      is_digit_def)

theorem get_page_title_url_witness:
  "page_title \<lparr>page_title = ''X y'', page_content = ''Hello world'',
                page_url = ''https://en.wikipedia.org/wiki/X%20y'', page_summary = ''Hello'',
                page_categories = [''Z''], page_links = [''Y'']\<rparr> = ''X y'' \<and>
   page_url \<lparr>page_title = ''X y'', page_content = ''Hello world'',
                page_url = ''https://en.wikipedia.org/wiki/X%20y'', page_summary = ''Hello'',
                page_categories = [''Z''], page_links = [''Y'']\<rparr>
     = ''https://'' @ language example_agent @ ''.wikipedia.org/wiki/'' @ quote ''X y''"
  by (rule get_page_title_url [OF get_page_ok_value])

section \<open>Assembly: content slides, slide text, loading\<close>

lemma fill_paragraphs_rest:
  "fill_paragraphs ps (enumerate (Suc n) pts) =
     Inr (ps @ map (\<lambda>pt. \<lparr>par_text = pt, par_level = 0\<rparr>) pts)"
  by (induction pts arbitrary: ps n) simp_all

lemma fill_paragraphs_all:
  "fill_paragraphs [p] (enumerate 0 pts) =
     Inr (if pts = [] then [p] else map (\<lambda>pt. \<lparr>par_text = pt, par_level = 0\<rparr>) pts)"
  by (cases pts) (simp_all add: fill_paragraphs_rest)

text \<open>
  Claim C7.  For every title and every sequence of points, \<^verbatim>\<open>add_content_slide\<close> returns
  and appends exactly one slide; the paragraphs of its content placeholder are the
  points, one paragraph per point, in the given order and at outline level 0; and
  \<^verbatim>\<open>get_slide_text\<close> at the index of that slide returns the title, a newline, and the
  points joined by newlines.
\<close>

theorem add_content_slide_then_get_slide_text:
  "\<exists>sl. add_content_slide self title points =
            Inr (self\<lparr>prs := (prs self)\<lparr>slides := slides (prs self) @ [sl]\<rparr>\<rparr>, sl)
      \<and> placeholder_paragraphs 1 (shapes sl) =
            Some (if points = [] then [empty_paragraph]
                  else map (\<lambda>pt. \<lparr>par_text = pt, par_level = 0\<rparr>) points)
      \<and> get_slide_text (self\<lparr>prs := (prs self)\<lparr>slides := slides (prs self) @ [sl]\<rparr>\<rparr>)
            (int (length (slides (prs self))))
          = Inr (title @ [CHR 0x0A] @ join [CHR 0x0A] points)"
proof -
  define ps where
    "ps = (if points = [] then [empty_paragraph]
           else map (\<lambda>pt. \<lparr>par_text = pt, par_level = 0\<rparr>) points)"
  define sl where
    "sl = \<lparr>layout = TitleAndContent,
           shapes = [Placeholder 0 [\<lparr>par_text = title, par_level = 0\<rparr>], Placeholder 1 ps]\<rparr>"
  have added: "add_content_slide self title points =
      Inr (self\<lparr>prs := (prs self)\<lparr>slides := slides (prs self) @ [sl]\<rparr>\<rparr>, sl)"
    by (simp add: add_content_slide_def fill_paragraphs_all sl_def ps_def Let_def)
  have pars: "placeholder_paragraphs 1 (shapes sl) = Some ps"
    by (simp add: sl_def)
  have "join [CHR 0x0A] (map par_text ps) = join [CHR 0x0A] points"
    by (simp add: ps_def empty_paragraph_def comp_def)
  then have shown: "get_slide_text (self\<lparr>prs := (prs self)\<lparr>slides := slides (prs self) @ [sl]\<rparr>\<rparr>)
      (int (length (slides (prs self)))) = Inr (title @ [CHR 0x0A] @ join [CHR 0x0A] points)"
    by (simp add: get_slide_text_def py_index_def sl_def)
  from added pars shown show ?thesis
    unfolding ps_def by blast
qed

text \<open>An index at or beyond the number of slides gives the sentinel string.\<close>

lemma get_slide_text_beyond_end:
  "int (get_slide_count self) \<le> slide_index \<Longrightarrow>
     get_slide_text self slide_index = Inr ''Slide index out of range''"
  by (simp add: get_slide_text_def get_slide_count_def)

text \<open>
  Claim C8.  The claim asks for the sentinel string at every index outside the valid
  range, on either side.  The guard of \<^verbatim>\<open>get_slide_text\<close> tests only
  \<^verbatim>\<open>slide_index >= len(self.prs.slides)\<close>; a negative index passes it and reaches the
  indexing of the slide sequence, which on the empty Presentation raises
  \<^verbatim>\<open>IndexError\<close>.
\<close>

theorem get_slide_text_negative_index:
  "get_slide_text PowerPointTool_init (- 1) = Inl (IndexError ''slide index out of range'')"
  by (simp add: get_slide_text_def PowerPointTool_init_def Presentation_def py_index_def)

text \<open>
  Claim C9, as stated, fails: \<^verbatim>\<open>load_presentation\<close> of a missing path does not reset the
  Presentation.  A tool that holds one slide still holds it after the call.
\<close>

theorem load_presentation_missing_keeps_slides:
  "load_presentation Map.empty one_slide_tool ''missing.pptx''
     = Inr (one_slide_tool, [''File not found: missing.pptx''])
   \<and> get_slide_count one_slide_tool = 1"
  by (simp add: load_presentation_def one_slide_tool_def get_slide_count_def)

text \<open>
  Claim C9, amended.  For every path that does not exist, \<^verbatim>\<open>load_presentation\<close> prints
  \<^verbatim>\<open>File not found: <path>\<close>, raises nothing and leaves the Presentation as it was before
  the call; on a freshly constructed tool that is the default Presentation, with zero
  slides.
\<close>

theorem load_presentation_missing:
  assumes "fs file_path = None"
  shows "load_presentation fs self file_path = Inr (self, [''File not found: '' @ file_path])
         \<and> (self = PowerPointTool_init \<longrightarrow>
              get_slide_count (fst (projr (load_presentation fs self file_path))) = 0)"
  using assms
  by (simp add: load_presentation_def PowerPointTool_init_def Presentation_def
      get_slide_count_def)

theorem load_presentation_missing_witness:
  "load_presentation Map.empty PowerPointTool_init ''missing.pptx''
     = Inr (PowerPointTool_init, [''File not found: missing.pptx''])
   \<and> get_slide_count
       (fst (projr (load_presentation Map.empty PowerPointTool_init ''missing.pptx''))) = 0"
  using load_presentation_missing [of Map.empty "''missing.pptx''" PowerPointTool_init]
  by (simp add: load_presentation_def)

end
